theory Spec2Isabelle
  imports Main "HOL-Library.Word" "HOL-Library.Char_ord" "HOL-Library.List_Lexorder"
    "HOL-Library.Multiset"
begin

section \<open>Go values held in an interface\<close>

text \<open>
  The package works on values of type \<^verbatim>\<open>interface{}\<close>. What the code looks at is the
  dynamic type of such a value (the type switch of \<^verbatim>\<open>normalizeArgs\<close>, the assertions
  \<^verbatim>\<open>val.(string)\<close> and \<^verbatim>\<open>value.(error)\<close>), so a value is modelled by one
  constructor per dynamic type. Machine integers are words of their width (\<^verbatim>\<open>int\<close>,
  \<^verbatim>\<open>uint\<close> and \<^verbatim>\<open>uintptr\<close> taken at 64 bits); a floating-point number is its bit
  pattern, which is all the package ever does with one: it hands it on.

  A value of a defined type with methods carries its method set: the text its
  \<^verbatim>\<open>String()\<close> method returns when it has one (it then implements
  \<^verbatim>\<open>fmt.Stringer\<close>) and the text its \<^verbatim>\<open>Error()\<close> method returns when it has one (it
  then implements \<^verbatim>\<open>error\<close>), together with the value underneath. The JSON encoder
  asks a value for two more methods: \<^verbatim>\<open>MarshalJSON()\<close>, of which the method set holds
  what the encoder takes from it (the JSON text, compacted, or an error when the method
  fails or its text is not JSON), and \<^verbatim>\<open>MarshalText()\<close>, of which it holds the text or
  the error.
\<close>

datatype marshal_error = UnsupportedType | UnsupportedValue | MarshalerError

record method_set =
  m_String :: "string option"
  m_Error :: "string option"
  m_MarshalJSON :: "(marshal_error + string) option"
  m_MarshalText :: "(marshal_error + string) option"

datatype val =
    VNil
  | VString string
  | VInt "64 word"
  | VInt64 "64 word"
  | VInt32 "32 word"
  | VInt16 "16 word"
  | VInt8 "8 word"
  | VUint "64 word"
  | VUint64 "64 word"
  | VUint32 "32 word"
  | VUint16 "16 word"
  | VUint8 "8 word"
  | VFloat32 "32 word"
  | VFloat64 "64 word"
  | VBool bool
  | VUintptr "64 word"
  | VMap "(string \<times> val) list"
  | VStruct "(string \<times> val) list"
  | VSlice "val list"
  | VBytes "8 word list"
  | VPtr val
  | VNilPtr
  | VChan nat
  | VFunc nat
  | VDefined method_set val

text \<open>
  \<^verbatim>\<open>VMap\<close> is a non-nil \<^verbatim>\<open>map[string]interface{}\<close> given by its entries,
  \<^verbatim>\<open>VStruct\<close> a struct value given by its exported fields in declaration order,
  \<^verbatim>\<open>VSlice\<close> a non-nil slice that is not a byte slice, \<^verbatim>\<open>VBytes\<close> a non-nil
  \<^verbatim>\<open>[]byte\<close>, \<^verbatim>\<open>VPtr\<close> a non-nil pointer to the given value, \<^verbatim>\<open>VNilPtr\<close> a nil
  pointer to a value that is not a function, \<^verbatim>\<open>VChan\<close> and \<^verbatim>\<open>VFunc\<close> a channel and
  a function value.
\<close>

text \<open>
  A Go slice is either nil or an allocated sequence; \<^verbatim>\<open>len\<close> and \<^verbatim>\<open>range\<close> treat the
  nil slice as empty, \<^verbatim>\<open>append\<close> allocates.
\<close>

type_synonym 'a slice = "'a list option"

fun elems :: "'a slice \<Rightarrow> 'a list" where
  "elems None = []"
| "elems (Some xs) = xs"

definition len :: "'a slice \<Rightarrow> nat" where
  "len s = length (elems s)"

fun append_slice :: "'a slice \<Rightarrow> 'a \<Rightarrow> 'a slice" where
  "append_slice None v = Some [v]"
| "append_slice (Some xs) v = Some (xs @ [v])"

section \<open>Argument normalisation\<close>

text \<open>
  \<^verbatim>\<open>json.Marshal\<close> belongs to the standard library, not to the package: it is a parameter
  of the functions that call it, returning the encoding or an error.
\<close>

type_synonym marshaller = "val \<Rightarrow> marshal_error + string"

text \<open>
  \<^verbatim>\<open>
  func jsonString(v interface{}) string {
      b, err := json.Marshal(v)
      if err != nil {
          return ""
      }
      return string(b)
  }
  \<close>
\<close>

definition jsonString :: "marshaller \<Rightarrow> val \<Rightarrow> string" where
  "jsonString marshal v = (case marshal v of Inl err \<Rightarrow> [] | Inr b \<Rightarrow> b)"

text \<open>
  The first case of the type switch in \<^verbatim>\<open>normalizeArgs\<close>:
  \<^verbatim>\<open>case string, int, int64, int32, int16, int8, uint, uint64, uint32, uint16, uint8,
       float32, float64, bool, fmt.Stringer, error\<close>.
  A type in the list matches a value whose dynamic type is exactly that type; an interface
  in the list matches a non-nil value whose method set has the method.
\<close>

fun passes_through :: "val \<Rightarrow> bool" where
  "passes_through (VString s) = True"
| "passes_through (VInt w) = True"
| "passes_through (VInt64 w) = True"
| "passes_through (VInt32 w) = True"
| "passes_through (VInt16 w) = True"
| "passes_through (VInt8 w) = True"
| "passes_through (VUint w) = True"
| "passes_through (VUint64 w) = True"
| "passes_through (VUint32 w) = True"
| "passes_through (VUint16 w) = True"
| "passes_through (VUint8 w) = True"
| "passes_through (VFloat32 w) = True"
| "passes_through (VFloat64 w) = True"
| "passes_through (VBool b) = True"
| "passes_through (VDefined ms u) = (m_String ms \<noteq> None \<or> m_Error ms \<noteq> None)"
| "passes_through v = False"

text \<open>
  \<^verbatim>\<open>
  func normalizeArgs(a []interface{}) (n []interface{}) {
      for _, i := range a {
          switch v := i.(type) {
          case string, ..., error:
              n = append(n, v)
          default:
              n = append(n, jsonString(v))
          }
      }
      return
  }
  \<close>
  The body of the loop is \<open>normalize_step\<close>; the loop runs over the elements of \<open>a\<close> with
  the named result \<open>n\<close>, which starts as the nil slice.
\<close>

definition normalize_step :: "marshaller \<Rightarrow> val slice \<Rightarrow> val \<Rightarrow> val slice" where
  "normalize_step marshal n i =
     (if passes_through i then append_slice n i
      else append_slice n (VString (jsonString marshal i)))"

fun normalize_loop :: "marshaller \<Rightarrow> val list \<Rightarrow> val slice \<Rightarrow> val slice" where
  "normalize_loop marshal [] n = n"
| "normalize_loop marshal (i # a) n = normalize_loop marshal a (normalize_step marshal n i)"

definition normalizeArgs :: "marshaller \<Rightarrow> val slice \<Rightarrow> val slice" where
  "normalizeArgs marshal a = normalize_loop marshal (elems a) None"

section \<open>The JSON encoder on the values of the model\<close>

text \<open>
  For the concrete encodings the claims name, \<^verbatim>\<open>json.Marshal\<close> is modelled on the values
  above after the documentation of \<^verbatim>\<open>encoding/json\<close> (Go 1.17 to 1.21, the versions of
  the CI matrix): integers in decimal, booleans as \<^verbatim>\<open>true\<close> and \<^verbatim>\<open>false\<close>, strings
  quoted and escaped for HTML with invalid UTF-8 replaced, maps as objects with the keys
  sorted as byte strings, structs as objects in field order, slices as arrays, pointers as
  what they point to, nil as \<^verbatim>\<open>null\<close>, byte slices as base64 text, channels and
  functions refused. A value with a \<^verbatim>\<open>MarshalJSON()\<close> method is encoded by it, and else
  a value with a \<^verbatim>\<open>MarshalText()\<close> method as the JSON string of its text, before the
  value underneath is looked at. The text of a floating-point number is left to a
  parameter. Struct tags are outside the model.
\<close>

definition byte_of :: "char \<Rightarrow> nat" where
  "byte_of c = of_char c"

definition hex_digit :: "nat \<Rightarrow> char" where
  "hex_digit n = ''0123456789abcdef'' ! (n mod 16)"

fun dec_nat :: "nat \<Rightarrow> string" where
  "dec_nat n =
     (if n < 10 then [''0123456789'' ! n]
      else dec_nat (n div 10) @ [''0123456789'' ! (n mod 10)])"

definition dec_int :: "int \<Rightarrow> string" where
  "dec_int i = (if i < 0 then CHR ''-'' # dec_nat (nat (- i)) else dec_nat (nat i))"

definition in_range :: "nat \<Rightarrow> nat \<Rightarrow> char \<Rightarrow> bool" where
  "in_range lo hi c = (lo \<le> byte_of c \<and> byte_of c \<le> hi)"

text \<open>
  The number of bytes of the UTF-8 sequence a string starts with, 0 when it starts with
  none (where \<^verbatim>\<open>utf8.DecodeRuneInString\<close> answers \<^verbatim>\<open>RuneError, 1\<close>).
\<close>

fun utf8_size :: "string \<Rightarrow> nat" where
  "utf8_size [] = 0"
| "utf8_size (c # cs) =
     (let b = byte_of c in
      if b < 0x80 then 1
      else if b < 0xC2 then 0
      else if b < 0xE0 then
        (case cs of c1 # _ \<Rightarrow> if in_range 0x80 0xBF c1 then 2 else 0 | _ \<Rightarrow> 0)
      else if b < 0xF0 then
        (case cs of
           c1 # c2 # _ \<Rightarrow>
             if in_range (if b = 0xE0 then 0xA0 else 0x80) (if b = 0xED then 0x9F else 0xBF) c1
                \<and> in_range 0x80 0xBF c2 then 3 else 0
         | _ \<Rightarrow> 0)
      else if b < 0xF5 then
        (case cs of
           c1 # c2 # c3 # _ \<Rightarrow>
             if in_range (if b = 0xF0 then 0x90 else 0x80) (if b = 0xF4 then 0x8F else 0xBF) c1
                \<and> in_range 0x80 0xBF c2 \<and> in_range 0x80 0xBF c3 then 4 else 0
         | _ \<Rightarrow> 0)
      else 0)"

definition html_safe :: "char \<Rightarrow> bool" where
  "html_safe c =
     (0x20 \<le> byte_of c \<and> byte_of c < 0x80 \<and> c \<noteq> CHR 0x22 \<and> c \<noteq> CHR 0x5C
      \<and> c \<noteq> CHR ''<'' \<and> c \<noteq> CHR ''>'' \<and> c \<noteq> CHR ''&'')"

definition escape_byte :: "char \<Rightarrow> string" where
  "escape_byte c =
     CHR 0x5C #
     (if c = CHR 0x5C \<or> c = CHR 0x22 then [c]
      else if c = CHR 0x0A then ''n''
      else if c = CHR 0x0D then ''r''
      else if c = CHR 0x09 then ''t''
      else ''u00'' @ [hex_digit (byte_of c div 16), hex_digit (byte_of c mod 16)])"

function escape_from :: "string \<Rightarrow> string" where
  "escape_from [] = []"
| "escape_from (c # cs) =
     (if byte_of c < 0x80 then
        (if html_safe c then [c] else escape_byte c) @ escape_from cs
      else
        (let size = utf8_size (c # cs) in
         if size = 0 then (CHR 0x5C # ''ufffd'') @ escape_from cs
         else if take 3 (c # cs) = [CHR 0xE2, CHR 0x80, CHR 0xA8] then
           (CHR 0x5C # ''u2028'') @ escape_from (drop size (c # cs))
         else if take 3 (c # cs) = [CHR 0xE2, CHR 0x80, CHR 0xA9] then
           (CHR 0x5C # ''u2029'') @ escape_from (drop size (c # cs))
         else take size (c # cs) @ escape_from (drop size (c # cs))))"
  by pat_completeness auto
termination
  by (relation "measure length") auto

definition json_string :: "string \<Rightarrow> string" where
  "json_string s = CHR 0x22 # escape_from s @ [CHR 0x22]"

fun first_error :: "(marshal_error + string) list \<Rightarrow> marshal_error + string list" where
  "first_error [] = Inr []"
| "first_error (Inl e # rs) = Inl e"
| "first_error (Inr s # rs) =
     (case first_error rs of Inl e \<Rightarrow> Inl e | Inr ss \<Rightarrow> Inr (s # ss))"

fun join_with :: "string \<Rightarrow> string list \<Rightarrow> string" where
  "join_with sep [] = []"
| "join_with sep [s] = s"
| "join_with sep (s # ss) = s @ sep @ join_with sep ss"

definition json_member :: "string \<times> (marshal_error + string) \<Rightarrow> marshal_error + string" where
  "json_member kv =
     (case snd kv of Inl e \<Rightarrow> Inl e | Inr s \<Rightarrow> Inr (json_string (fst kv) @ '':'' @ s))"

definition json_object :: "(string \<times> (marshal_error + string)) list \<Rightarrow> marshal_error + string" where
  "json_object kvs =
     (case first_error (map json_member kvs) of
        Inl e \<Rightarrow> Inl e
      | Inr ms \<Rightarrow> Inr (''{'' @ join_with '','' ms @ ''}''))"

definition json_array :: "(marshal_error + string) list \<Rightarrow> marshal_error + string" where
  "json_array rs =
     (case first_error rs of
        Inl e \<Rightarrow> Inl e
      | Inr ss \<Rightarrow> Inr (''['' @ join_with '','' ss @ '']''))"

definition base64_digit :: "nat \<Rightarrow> char" where
  "base64_digit n =
     ''ABCDEFGHIJKLMNOPQRSTUVWXYZabcdefghijklmnopqrstuvwxyz0123456789+/'' ! (n mod 64)"

fun base64 :: "nat list \<Rightarrow> string" where
  "base64 (a # b # c # rest) =
     [base64_digit (a div 4), base64_digit ((a mod 4) * 16 + b div 16),
      base64_digit ((b mod 16) * 4 + c div 64), base64_digit (c mod 64)] @ base64 rest"
| "base64 [a, b] =
     [base64_digit (a div 4), base64_digit ((a mod 4) * 16 + b div 16),
      base64_digit ((b mod 16) * 4), CHR ''='']"
| "base64 [a] = [base64_digit (a div 4), base64_digit ((a mod 4) * 16), CHR ''='', CHR ''='']"
| "base64 [] = []"

fun json_Marshal :: "marshaller \<Rightarrow> marshaller" where
  "json_Marshal fl VNil = Inr ''null''"
| "json_Marshal fl (VString s) = Inr (json_string s)"
| "json_Marshal fl (VInt w) = Inr (dec_int (sint w))"
| "json_Marshal fl (VInt64 w) = Inr (dec_int (sint w))"
| "json_Marshal fl (VInt32 w) = Inr (dec_int (sint w))"
| "json_Marshal fl (VInt16 w) = Inr (dec_int (sint w))"
| "json_Marshal fl (VInt8 w) = Inr (dec_int (sint w))"
| "json_Marshal fl (VUint w) = Inr (dec_nat (unat w))"
| "json_Marshal fl (VUint64 w) = Inr (dec_nat (unat w))"
| "json_Marshal fl (VUint32 w) = Inr (dec_nat (unat w))"
| "json_Marshal fl (VUint16 w) = Inr (dec_nat (unat w))"
| "json_Marshal fl (VUint8 w) = Inr (dec_nat (unat w))"
| "json_Marshal fl (VUintptr w) = Inr (dec_nat (unat w))"
| "json_Marshal fl (VFloat32 w) = fl (VFloat32 w)"
| "json_Marshal fl (VFloat64 w) = fl (VFloat64 w)"
| "json_Marshal fl (VBool b) = Inr (if b then ''true'' else ''false'')"
| "json_Marshal fl (VMap kvs) =
     json_object (sort_key fst (map (\<lambda>(k, v). (k, json_Marshal fl v)) kvs))"
| "json_Marshal fl (VStruct kvs) =
     json_object (map (\<lambda>(k, v). (k, json_Marshal fl v)) kvs)"
| "json_Marshal fl (VSlice vs) = json_array (map (json_Marshal fl) vs)"
| "json_Marshal fl (VBytes bs) = Inr (CHR 0x22 # base64 (map unat bs) @ [CHR 0x22])"
| "json_Marshal fl (VPtr v) = json_Marshal fl v"
| "json_Marshal fl VNilPtr = Inr ''null''"
| "json_Marshal fl (VChan c) = Inl UnsupportedType"
| "json_Marshal fl (VFunc f) = Inl UnsupportedType"
| "json_Marshal fl (VDefined ms u) =
     (case m_MarshalJSON ms of
        Some r \<Rightarrow> r
      | None \<Rightarrow>
          (case m_MarshalText ms of
             Some (Inl e) \<Rightarrow> Inl e
           | Some (Inr t) \<Rightarrow> Inr (json_string t)
           | None \<Rightarrow> json_Marshal fl u))"

section \<open>Formatter selection\<close>

datatype Formatter = SimpleFormatter | TextFormatter | JSONFormatter

definition formatMap :: "string \<rightharpoonup> Formatter" where
  "formatMap =
     [''simple'' \<mapsto> SimpleFormatter, ''text'' \<mapsto> TextFormatter, ''json'' \<mapsto> JSONFormatter]"

text \<open>
  \<^verbatim>\<open>strings.ToLower\<close> maps \<^verbatim>\<open>A\<close> to \<^verbatim>\<open>Z\<close> onto \<^verbatim>\<open>a\<close> to \<^verbatim>\<open>z\<close> in a string of
  ASCII bytes and applies the Unicode lower-case mapping to any other string; the Unicode
  mapping is a parameter.
\<close>

definition ascii_lower :: "char \<Rightarrow> char" where
  "ascii_lower c =
     (if byte_of CHR ''A'' \<le> byte_of c \<and> byte_of c \<le> byte_of CHR ''Z''
      then char_of (byte_of c + 32) else c)"

definition ToLower :: "(string \<Rightarrow> string) \<Rightarrow> string \<Rightarrow> string" where
  "ToLower unicode_lower s =
     (if list_all (\<lambda>c. byte_of c < 0x80) s then map ascii_lower s else unicode_lower s)"

text \<open>
  \<^verbatim>\<open>
  func FormatterFromName(name string) (f Formatter) {
      var ok bool
      name = strings.ToLower(name)
      if f, ok = formatMap[name]; ok {
          return f
      }
      return JSONFormatter
  }
  \<close>
\<close>

definition FormatterFromName :: "(string \<Rightarrow> string) \<Rightarrow> string \<Rightarrow> Formatter" where
  "FormatterFromName unicode_lower name =
     (let name = ToLower unicode_lower name in
      case formatMap name of Some f \<Rightarrow> f | None \<Rightarrow> JSONFormatter)"

section \<open>Context fields, explicit fields and the log calls\<close>

text \<open>
  The backend (logrus) is a collaborator of the package. Of an entry only its field set
  matters here. \<^verbatim>\<open>Entry.WithFields\<close> copies the fields of the old entry and then writes
  the given ones over them, except a field whose value is a function or a pointer to a
  function (by the kind of its type, so also of a defined type): that field is left out,
  and the entry notes an error text for it, which is outside the model. A context is its
  lookup \<^verbatim>\<open>ctx.Value\<close>, which answers nil for a key it does not hold.
  \<^verbatim>\<open>fmt.Sprintf("%v", f)\<close> is a parameter.
\<close>

type_synonym Fields = "string \<rightharpoonup> val"

record entry =
  Data :: Fields

fun kind_Func :: "val \<Rightarrow> bool" where
  "kind_Func (VFunc f) = True"
| "kind_Func (VDefined ms u) = kind_Func u"
| "kind_Func v = False"

fun isErrField :: "val \<Rightarrow> bool" where
  "isErrField (VFunc f) = True"
| "isErrField (VPtr v) = kind_Func v"
| "isErrField (VDefined ms u) = isErrField u"
| "isErrField v = False"

definition accepted_fields :: "Fields \<Rightarrow> Fields" where
  "accepted_fields fieldset k =
     (case fieldset k of
        None \<Rightarrow> None
      | Some v \<Rightarrow> (if isErrField v then None else Some v))"

definition Entry_WithFields :: "entry \<Rightarrow> Fields \<Rightarrow> entry" where
  "Entry_WithFields e fieldset = e\<lparr>Data := Data e ++ accepted_fields fieldset\<rparr>"

definition Logger_WithFields :: "Fields \<Rightarrow> entry" where
  "Logger_WithFields fieldset = Entry_WithFields \<lparr>Data = Map.empty\<rparr> fieldset"

type_synonym Context = "val \<Rightarrow> val"

text \<open>
  The contexts of the package's test: \<^verbatim>\<open>context.Background()\<close> holds nothing, and
  \<^verbatim>\<open>context.WithValue(parent, key, v)\<close> answers \<open>v\<close> for \<open>key\<close> and asks the parent for
  any other key.
\<close>

definition Background :: Context where
  "Background k = VNil"

definition WithValue :: "Context \<Rightarrow> val \<Rightarrow> val \<Rightarrow> Context" where
  "WithValue parent key v k = (if k = key then v else parent k)"

definition test_ctx :: Context where
  "test_ctx =
     WithValue (WithValue Background (VString ''requestId'') (VString ''request-id''))
       (VString ''userId'') (VString ''user-id'')"


datatype panic = TypeAssertion | NilDereference

text \<open>The unchecked assertion \<^verbatim>\<open>val.(string)\<close>.\<close>

fun assert_string :: "val \<Rightarrow> panic + string" where
  "assert_string (VString s) = Inr s"
| "assert_string v = Inl TypeAssertion"

text \<open>
  \<^verbatim>\<open>
  func withContext(ctx context.Context) *logrus.Entry {
      fields := logrus.Fields{}
      for _, f := range ctxFields {
          val := ctx.Value(f)
          if val != nil {
              fields[fmt.Sprintf("%v", f)] = val.(string)
          }
      }
      return logger.WithFields(fields)
  }
  \<close>
  The registered keys \<^verbatim>\<open>ctxFields\<close> are a variable of the package, set by \<^verbatim>\<open>Init\<close>;
  they are an argument of the model.
\<close>

fun context_loop :: "(val \<Rightarrow> string) \<Rightarrow> Context \<Rightarrow> val list \<Rightarrow> Fields \<Rightarrow> panic + Fields" where
  "context_loop sprint ctx [] fieldset = Inr fieldset"
| "context_loop sprint ctx (f # fs) fieldset =
     (let val = ctx f in
      if val \<noteq> VNil then
        (case assert_string val of
           Inl p \<Rightarrow> Inl p
         | Inr s \<Rightarrow> context_loop sprint ctx fs (fieldset(sprint f \<mapsto> VString s)))
      else context_loop sprint ctx fs fieldset)"

definition withContext :: "(val \<Rightarrow> string) \<Rightarrow> val list \<Rightarrow> Context \<Rightarrow> panic + entry" where
  "withContext sprint ctxFields ctx =
     (case context_loop sprint ctx ctxFields Map.empty of
        Inl p \<Rightarrow> Inl p
      | Inr fieldset \<Rightarrow> Inr (Logger_WithFields fieldset))"

text \<open>
  \<^verbatim>\<open>
  type fld struct {
      key   string
      value interface{}
  }
  func (f *fld) apply(fields logrus.Fields) {
      fields[f.key] = f.value
  }
  func Field(key string, value interface{}) Fld {
      if err, ok := value.(error); ok {
          value = err.Error()
      }
      return &fld{key: key, value: value}
  }
  \<close>
  A \<^verbatim>\<open>Fld\<close> is an interface value: nil, or a pointer to a \<^verbatim>\<open>fld\<close>.
\<close>

record fld =
  fld_key :: string
  fld_value :: val

type_synonym Fld = "fld option"

text \<open>The assertion \<^verbatim>\<open>value.(error)\<close>: when it holds, the text of \<^verbatim>\<open>err.Error()\<close>.\<close>

fun assert_error :: "val \<Rightarrow> string option" where
  "assert_error (VDefined ms u) = m_Error ms"
| "assert_error v = None"

definition Field :: "string \<Rightarrow> val \<Rightarrow> Fld" where
  "Field k v =
     (let v' = (case assert_error v of Some msg \<Rightarrow> VString msg | None \<Rightarrow> v)
      in Some \<lparr>fld_key = k, fld_value = v'\<rparr>)"

fun fld_apply :: "Fld \<Rightarrow> Fields \<Rightarrow> panic + Fields" where
  "fld_apply None fieldset = Inl NilDereference"
| "fld_apply (Some f) fieldset = Inr (fieldset(fld_key f \<mapsto> fld_value f))"

text \<open>
  \<^verbatim>\<open>
  func withFields(entry *logrus.Entry, flds []Fld) *logrus.Entry {
      fields := make(logrus.Fields)
      for _, f := range flds {
          f.apply(fields)
      }
      return entry.WithFields(fields)
  }
  \<close>
\<close>

fun fields_loop :: "Fld list \<Rightarrow> Fields \<Rightarrow> panic + Fields" where
  "fields_loop [] fieldset = Inr fieldset"
| "fields_loop (f # flds) fieldset =
     (case fld_apply f fieldset of
        Inl p \<Rightarrow> Inl p
      | Inr fieldset' \<Rightarrow> fields_loop flds fieldset')"

definition withFields :: "entry \<Rightarrow> Fld slice \<Rightarrow> panic + entry" where
  "withFields e flds =
     (case fields_loop (elems flds) Map.empty of
        Inl p \<Rightarrow> Inl p
      | Inr fieldset \<Rightarrow> Inr (Entry_WithFields e fieldset))"

text \<open>
  What a log call hands to the backend: the level of the method called, the entry, and
  either the message (\<^verbatim>\<open>entry.Info(i)\<close>) or the format with its arguments
  (\<^verbatim>\<open>entry.Infof(format, args...)\<close>). Filtering by level, formatting, output and the exit
  after a fatal entry are the backend's.
\<close>

datatype Level = PanicLevel | FatalLevel | ErrorLevel | WarnLevel | InfoLevel | DebugLevel | TraceLevel

datatype payload = Message val | Formatted string "val slice"

record emitted =
  em_level :: Level
  em_entry :: entry
  em_payload :: payload

definition Entry_Log :: "Level \<Rightarrow> entry \<Rightarrow> val \<Rightarrow> emitted" where
  "Entry_Log lvl e i = \<lparr>em_level = lvl, em_entry = e, em_payload = Message i\<rparr>"

definition Entry_Logf :: "Level \<Rightarrow> entry \<Rightarrow> string \<Rightarrow> val slice \<Rightarrow> emitted" where
  "Entry_Logf lvl e format args = \<lparr>em_level = lvl, em_entry = e, em_payload = Formatted format args\<rparr>"

definition and_then :: "panic + 'a \<Rightarrow> ('a \<Rightarrow> panic + 'b) \<Rightarrow> panic + 'b" where
  "and_then r k = (case r of Inl p \<Rightarrow> Inl p | Inr x \<Rightarrow> k x)"

text \<open>
  \<^verbatim>\<open>
  func Info(ctx context.Context, i interface{}, flds ...Fld) {
      withFields(withContext(ctx), flds).Info(i)
  }
  func Infof(ctx context.Context, format string, a ...interface{}) {
      withContext(ctx).Infof(format, normalizeArgs(a)...)
  }
  \<close>
  and the same for \<^verbatim>\<open>Warn\<close>, \<^verbatim>\<open>Error\<close> and \<^verbatim>\<open>Debug\<close>;
  \<^verbatim>\<open>
  func Fatal(ctx context.Context, err error) {
      withContext(ctx).Fatal(err)
  }
  func Fatalf(ctx context.Context, format string, args ...interface{}) {
      withContext(ctx).Fatalf(format, args...)
  }
  \<close>
\<close>

definition Info :: "(val \<Rightarrow> string) \<Rightarrow> val list \<Rightarrow> Context \<Rightarrow> val \<Rightarrow> Fld slice \<Rightarrow> panic + emitted" where
  "Info sprint ctxFields ctx i flds =
     and_then (withContext sprint ctxFields ctx) (\<lambda>e.
     and_then (withFields e flds) (\<lambda>e'. Inr (Entry_Log InfoLevel e' i)))"

definition Infof :: "marshaller \<Rightarrow> (val \<Rightarrow> string) \<Rightarrow> val list \<Rightarrow> Context \<Rightarrow> string \<Rightarrow> val slice \<Rightarrow> panic + emitted" where
  "Infof marshal sprint ctxFields ctx format a =
     and_then (withContext sprint ctxFields ctx) (\<lambda>e.
       Inr (Entry_Logf InfoLevel e format (normalizeArgs marshal a)))"

definition Warn :: "(val \<Rightarrow> string) \<Rightarrow> val list \<Rightarrow> Context \<Rightarrow> val \<Rightarrow> Fld slice \<Rightarrow> panic + emitted" where
  "Warn sprint ctxFields ctx w flds =
     and_then (withContext sprint ctxFields ctx) (\<lambda>e.
     and_then (withFields e flds) (\<lambda>e'. Inr (Entry_Log WarnLevel e' w)))"

definition Warnf :: "marshaller \<Rightarrow> (val \<Rightarrow> string) \<Rightarrow> val list \<Rightarrow> Context \<Rightarrow> string \<Rightarrow> val slice \<Rightarrow> panic + emitted" where
  "Warnf marshal sprint ctxFields ctx format a =
     and_then (withContext sprint ctxFields ctx) (\<lambda>e.
       Inr (Entry_Logf WarnLevel e format (normalizeArgs marshal a)))"

definition Error :: "(val \<Rightarrow> string) \<Rightarrow> val list \<Rightarrow> Context \<Rightarrow> val \<Rightarrow> Fld slice \<Rightarrow> panic + emitted" where
  "Error sprint ctxFields ctx e0 flds =
     and_then (withContext sprint ctxFields ctx) (\<lambda>e.
     and_then (withFields e flds) (\<lambda>e'. Inr (Entry_Log ErrorLevel e' e0)))"

definition Errorf :: "marshaller \<Rightarrow> (val \<Rightarrow> string) \<Rightarrow> val list \<Rightarrow> Context \<Rightarrow> string \<Rightarrow> val slice \<Rightarrow> panic + emitted" where
  "Errorf marshal sprint ctxFields ctx format a =
     and_then (withContext sprint ctxFields ctx) (\<lambda>e.
       Inr (Entry_Logf ErrorLevel e format (normalizeArgs marshal a)))"

definition Debug :: "(val \<Rightarrow> string) \<Rightarrow> val list \<Rightarrow> Context \<Rightarrow> val \<Rightarrow> Fld slice \<Rightarrow> panic + emitted" where
  "Debug sprint ctxFields ctx d flds =
     and_then (withContext sprint ctxFields ctx) (\<lambda>e.
     and_then (withFields e flds) (\<lambda>e'. Inr (Entry_Log DebugLevel e' d)))"

definition Debugf :: "marshaller \<Rightarrow> (val \<Rightarrow> string) \<Rightarrow> val list \<Rightarrow> Context \<Rightarrow> string \<Rightarrow> val slice \<Rightarrow> panic + emitted" where
  "Debugf marshal sprint ctxFields ctx format a =
     and_then (withContext sprint ctxFields ctx) (\<lambda>e.
       Inr (Entry_Logf DebugLevel e format (normalizeArgs marshal a)))"

definition Fatal :: "(val \<Rightarrow> string) \<Rightarrow> val list \<Rightarrow> Context \<Rightarrow> val \<Rightarrow> panic + emitted" where
  "Fatal sprint ctxFields ctx err =
     and_then (withContext sprint ctxFields ctx) (\<lambda>e. Inr (Entry_Log FatalLevel e err))"

definition Fatalf :: "(val \<Rightarrow> string) \<Rightarrow> val list \<Rightarrow> Context \<Rightarrow> string \<Rightarrow> val slice \<Rightarrow> panic + emitted" where
  "Fatalf sprint ctxFields ctx format args =
     and_then (withContext sprint ctxFields ctx) (\<lambda>e. Inr (Entry_Logf FatalLevel e format args))"

section \<open>Notions the properties are stated with\<close>

text \<open>What the loop of \<^verbatim>\<open>normalizeArgs\<close> appends for one input value.\<close>

definition normalize_value :: "marshaller \<Rightarrow> val \<Rightarrow> val" where
  "normalize_value marshal i = (if passes_through i then i else VString (jsonString marshal i))"




text \<open>Whether the dynamic type of a value is \<^verbatim>\<open>string\<close>.\<close>

fun is_string :: "val \<Rightarrow> bool" where
  "is_string (VString s) = True"
| "is_string v = False"

text \<open>
  The writes of the two loops, in the order they happen: one pair for each registered key
  the context holds, and one pair for each explicit field.
\<close>

definition context_pairs :: "(val \<Rightarrow> string) \<Rightarrow> Context \<Rightarrow> val list \<Rightarrow> (string \<times> val) list" where
  "context_pairs sprint ctx ctxFields =
     map (\<lambda>f. (sprint f, ctx f)) (filter (\<lambda>f. ctx f \<noteq> VNil) ctxFields)"

fun explicit_pairs :: "Fld list \<Rightarrow> (string \<times> val) list" where
  "explicit_pairs [] = []"
| "explicit_pairs (None # flds) = explicit_pairs flds"
| "explicit_pairs (Some r # flds) = (fld_key r, fld_value r) # explicit_pairs flds"

text \<open>
  For the examples, the text \<^verbatim>\<open>%v\<close> gives a key: a string prints as itself. The
  examples register string keys only, and the theorems hold for every rendering.
\<close>

definition show_key :: "val \<Rightarrow> string" where
  "show_key v = (case v of VString s \<Rightarrow> s | _ \<Rightarrow> ''?'')"

section \<open>The normaliser\<close>

lemma normalize_step_eq:
  "normalize_step marshal n i = Some (elems n @ [normalize_value marshal i])"
  by (cases n) (simp_all add: normalize_step_def normalize_value_def)

lemma normalize_loop_eq:
  "normalize_loop marshal a n =
     (if a = [] then n else Some (elems n @ map (normalize_value marshal) a))"
  by (induction a arbitrary: n) (simp_all add: normalize_step_eq)

lemma normalizeArgs_eq:
  "normalizeArgs marshal a =
     (if elems a = [] then None else Some (map (normalize_value marshal) (elems a)))"
  by (simp add: normalizeArgs_def normalize_loop_eq)

lemma normalizeArgs_single:
  "normalizeArgs marshal (Some [x]) = Some [normalize_value marshal x]"
  by (simp add: normalizeArgs_eq)

lemma normalizeArgs_encoded:
  "\<not> passes_through v \<Longrightarrow> marshal v = Inr s \<Longrightarrow>
     normalizeArgs marshal (Some [v]) = Some [VString s]"
  by (simp add: normalizeArgs_single normalize_value_def jsonString_def)




text \<open>
  The same for a value of a defined string type with neither method, on the encoder of the
  model: it becomes its quoted text.
\<close>

lemma normalizeArgs_not_listed:
  \<open>normalizeArgs (json_Marshal fl) (Some [VDefined \<lparr>m_String = None, m_Error = None, m_MarshalJSON = None, m_MarshalText = None\<rparr> (VString ''bob'')])
     = Some [VString ''"bob"'']\<close>
  by (simp add: normalizeArgs_single normalize_value_def jsonString_def json_string_def
      html_safe_def byte_of_def)

section \<open>The encoder of the model\<close>








lemma example_map:
  \<open>json_Marshal fl (VMap [(''a'', VString ''apple''), (''b'', VString ''banana'')])
     = Inr ''{"a":"apple","b":"banana"}''\<close>
  by (simp add: json_object_def json_member_def json_string_def html_safe_def byte_of_def)


text \<open>
  A byte slice becomes base64 text, and a value with a \<^verbatim>\<open>MarshalText()\<close> method (as the
  backend's \<^verbatim>\<open>Level\<close> has) the JSON string of its text, not the number underneath.
\<close>

lemma example_bytes_and_marshalers:
  \<open>json_Marshal fl (VBytes [0x68, 0x69]) = Inr ''"aGk="''\<close>
  \<open>json_Marshal fl (VBytes [0x4D, 0x61, 0x6E, 0x21]) = Inr ''"TWFuIQ=="''\<close>
  \<open>json_Marshal fl
     (VDefined \<lparr>m_String = Some ''info'', m_Error = None, m_MarshalJSON = None,
                m_MarshalText = Some (Inr ''info'')\<rparr> (VUint32 4))
     = Inr ''"info"''\<close>
  \<open>json_Marshal fl
     (VDefined \<lparr>m_String = None, m_Error = None, m_MarshalJSON = Some (Inr ''{"t":1}''),
                m_MarshalText = Some (Inr ''ignored'')\<rparr> (VStruct []))
     = Inr ''{"t":1}''\<close>
  by (simp_all add: base64_digit_def json_string_def html_safe_def byte_of_def)




text \<open>
  C3. \<^verbatim>\<open>normalizeArgs\<close> returns a slice for every input and every encoder, with one
  element for each input element: where the encoder fails on an element of the default
  branch the element is the empty string, and every other element is still what it would
  be alone (the encoding as a string, or the value itself). On the encoder of the model
  a channel and a function fail, and the elements around them are processed.
\<close>

theorem normalizeArgs_encoding_failure:
  "len (normalizeArgs marshal a) = len a
   \<and> (\<forall>i e. i < len a \<and> \<not> passes_through (elems a ! i) \<and> marshal (elems a ! i) = Inl e \<longrightarrow>
          elems (normalizeArgs marshal a) ! i = VString [])
   \<and> (\<forall>i s. i < len a \<and> \<not> passes_through (elems a ! i) \<and> marshal (elems a ! i) = Inr s \<longrightarrow>
          elems (normalizeArgs marshal a) ! i = VString s)
   \<and> (\<forall>i. i < len a \<and> passes_through (elems a ! i) \<longrightarrow>
          elems (normalizeArgs marshal a) ! i = elems a ! i)
   \<and> json_Marshal fl (VChan c) = Inl UnsupportedType
   \<and> json_Marshal fl (VFunc f) = Inl UnsupportedType
   \<and> normalizeArgs (json_Marshal fl) (Some [VChan c, VString ''x'', VFunc f, VInt 3])
       = Some [VString [], VString ''x'', VString [], VInt 3]"
  by (auto simp: normalizeArgs_eq len_def normalize_value_def jsonString_def)

theorem normalizeArgs_encoding_failure_witness:
  "len (normalizeArgs (json_Marshal (\<lambda>v. Inl UnsupportedValue))
          (Some [VString ''x'', VSlice [VFunc 1], VBool False]))
     = 3
   \<and> elems (normalizeArgs (json_Marshal (\<lambda>v. Inl UnsupportedValue))
          (Some [VString ''x'', VSlice [VFunc 1], VBool False])) ! 1
     = VString []
   \<and> elems (normalizeArgs (json_Marshal (\<lambda>v. Inl UnsupportedValue))
          (Some [VString ''x'', VSlice [VFunc 1], VBool False])) ! 2
     = VBool False"
proof -
  let ?m = "json_Marshal (\<lambda>v. Inl UnsupportedValue)"
  let ?a = "Some [VString ''x'', VSlice [VFunc 1], VBool False]"
  have l: "len ?a = 3"
    by (simp add: len_def)
  have at1: "1 < len ?a \<and> \<not> passes_through (elems ?a ! 1)
      \<and> ?m (elems ?a ! 1) = Inl UnsupportedType"
    by (simp add: len_def json_array_def)
  have at2: "2 < len ?a \<and> passes_through (elems ?a ! 2)"
    by (simp add: len_def)
  note t = normalizeArgs_encoding_failure [of ?m ?a]
  have "len (normalizeArgs ?m ?a) = 3"
    using t l by simp
  moreover have "elems (normalizeArgs ?m ?a) ! 1 = VString []"
    using t at1 by blast
  moreover have "elems (normalizeArgs ?m ?a) ! 2 = elems ?a ! 2"
    using t at2 by blast
  ultimately show ?thesis by simp
qed

text \<open>
  C6, as the code has it. The output has the length of the input, and its element \<open>i\<close> is
  what the loop makes of input element \<open>i\<close> alone, in the same place. An input of length
  zero, the nil slice or an allocated empty one, yields the nil slice: the named result
  is never appended to and \<^verbatim>\<open>return\<close> hands back its zero value.
\<close>

theorem normalizeArgs_length_order:
  "len (normalizeArgs marshal a) = len a
   \<and> (\<forall>i. i < len a \<longrightarrow>
          elems (normalizeArgs marshal a) ! i = normalize_value marshal (elems a ! i))
   \<and> (len a = 0 \<longrightarrow> normalizeArgs marshal a = None)"
  by (simp add: normalizeArgs_eq len_def)

theorem normalizeArgs_length_order_witness:
  "len (normalizeArgs (json_Marshal (\<lambda>v. Inl UnsupportedValue)) (Some [VInt 1, VNil])) = 2
   \<and> elems (normalizeArgs (json_Marshal (\<lambda>v. Inl UnsupportedValue)) (Some [VInt 1, VNil])) ! 1
       = VString ''null''
   \<and> normalizeArgs (json_Marshal (\<lambda>v. Inl UnsupportedValue)) None = None"
proof -
  let ?m = "json_Marshal (\<lambda>v. Inl UnsupportedValue)"
  have l: "len (Some [VInt 1, VNil]) = 2" "1 < len (Some [VInt 1, VNil])"
    by (simp_all add: len_def)
  have n: "len (None :: val slice) = 0"
    by (simp add: len_def)
  have "len (normalizeArgs ?m (Some [VInt 1, VNil])) = 2"
    using normalizeArgs_length_order [of ?m "Some [VInt 1, VNil]"] l by simp
  moreover have "elems (normalizeArgs ?m (Some [VInt 1, VNil])) ! 1
      = normalize_value ?m (elems (Some [VInt 1, VNil]) ! 1)"
    using normalizeArgs_length_order [of ?m "Some [VInt 1, VNil]"] l by blast
  moreover have "normalizeArgs ?m None = None"
    using normalizeArgs_length_order [of ?m None] n by blast
  ultimately show ?thesis
    by (simp add: normalize_value_def jsonString_def)
qed

text \<open>
  The claim as the specification words it fails on the allocated empty input: the output
  is the nil slice, not an empty one.
\<close>

theorem normalizeArgs_empty_is_nil:
  "normalizeArgs (\<lambda>v. Inl UnsupportedType) (Some []) = None
   \<and> normalizeArgs (\<lambda>v. Inl UnsupportedType) (Some []) \<noteq> Some []"
  by (simp add: normalizeArgs_def)

section \<open>Context extraction\<close>

lemma accepted_fields_empty:
  "accepted_fields Map.empty = Map.empty"
  by (simp add: accepted_fields_def fun_eq_iff)

lemma accepted_fields_all:
  assumes "\<And>k v. fieldset k = Some v \<Longrightarrow> \<not> isErrField v"
  shows "accepted_fields fieldset = fieldset"
proof
  fix k
  show "accepted_fields fieldset k = fieldset k"
    using assms [of k] by (cases "fieldset k") (simp_all add: accepted_fields_def)
qed

lemma is_string_not_isErrField:
  "is_string v \<Longrightarrow> \<not> isErrField v"
  by (cases v) simp_all

lemma assert_string_is_string:
  "is_string v \<Longrightarrow> assert_string v = Inr (case v of VString s \<Rightarrow> s) \<and> VString (case v of VString s \<Rightarrow> s) = v"
  by (cases v) simp_all

lemma assert_string_not_string:
  "\<not> is_string v \<Longrightarrow> assert_string v = Inl TypeAssertion"
  by (cases v) simp_all

lemma context_loop_strings:
  "list_all (\<lambda>f. ctx f = VNil \<or> is_string (ctx f)) fs \<Longrightarrow>
     context_loop sprint ctx fs acc = Inr (acc ++ map_of (rev (context_pairs sprint ctx fs)))"
proof (induction fs arbitrary: acc)
  case Nil
  then show ?case by (simp add: context_pairs_def)
next
  case (Cons f fs)
  show ?case
  proof (cases "ctx f = VNil")
    case True
    with Cons show ?thesis by (simp add: context_pairs_def)
  next
    case False
    with Cons.prems have str: "is_string (ctx f)" by simp
    then obtain s where s: "ctx f = VString s" by (cases "ctx f") simp_all
    have "context_loop sprint ctx (f # fs) acc
        = context_loop sprint ctx fs (acc(sprint f \<mapsto> VString s))"
      using s by simp
    also have "\<dots> = Inr (acc(sprint f \<mapsto> VString s) ++ map_of (rev (context_pairs sprint ctx fs)))"
      using Cons by simp
    also have "acc(sprint f \<mapsto> VString s) ++ map_of (rev (context_pairs sprint ctx fs))
        = acc ++ map_of (rev (context_pairs sprint ctx (f # fs)))"
      using s by (simp add: context_pairs_def map_add_upd_left map_add_assoc [symmetric] fun_eq_iff map_add_def split: option.splits)
    finally show ?thesis .
  qed
qed

lemma context_loop_panics:
  "f \<in> set fs \<Longrightarrow> ctx f \<noteq> VNil \<Longrightarrow> \<not> is_string (ctx f) \<Longrightarrow>
     context_loop sprint ctx fs acc = Inl TypeAssertion"
proof (induction fs arbitrary: acc)
  case Nil
  then show ?case by simp
next
  case (Cons g fs)
  show ?case
  proof (cases "ctx g = VNil")
    case True
    with Cons show ?thesis by auto
  next
    case False
    show ?thesis
    proof (cases "is_string (ctx g)")
      case True
      then obtain s where "ctx g = VString s" by (cases "ctx g") simp_all
      with Cons True show ?thesis by auto
    next
      case False
      with \<open>ctx g \<noteq> VNil\<close> show ?thesis
        by (simp add: assert_string_not_string)
    qed
  qed
qed

lemma fields_loop_applied:
  "list_all (\<lambda>f. f \<noteq> None) flds \<Longrightarrow>
     fields_loop flds acc = Inr (acc ++ map_of (rev (explicit_pairs flds)))"
proof (induction flds arbitrary: acc)
  case Nil
  then show ?case by simp
next
  case (Cons f flds)
  then obtain r where r: "f = Some r" by auto
  have "fields_loop (f # flds) acc = fields_loop flds (acc(fld_key r \<mapsto> fld_value r))"
    using r by simp
  also have "\<dots> = Inr (acc(fld_key r \<mapsto> fld_value r) ++ map_of (rev (explicit_pairs flds)))"
    using Cons by simp
  also have "acc(fld_key r \<mapsto> fld_value r) ++ map_of (rev (explicit_pairs flds))
      = acc ++ map_of (rev (explicit_pairs (f # flds)))"
    using r by (simp add: fun_eq_iff map_add_def split: option.splits)
  finally show ?case .
qed

lemma fields_loop_nil:
  "None \<in> set flds \<Longrightarrow> fields_loop flds acc = Inl NilDereference"
proof (induction flds arbitrary: acc)
  case Nil
  then show ?case by simp
next
  case (Cons f flds)
  then show ?case by (cases f) auto
qed

lemma withContext_strings:
  assumes "list_all (\<lambda>f. ctx f = VNil \<or> is_string (ctx f)) ctxFields"
  shows "withContext sprint ctxFields ctx
       = Inr \<lparr>Data = map_of (rev (context_pairs sprint ctx ctxFields))\<rparr>"
proof -
  let ?m = "map_of (rev (context_pairs sprint ctx ctxFields))"
  have "\<not> isErrField v" if "?m k = Some v" for k v
  proof -
    have "(k, v) \<in> set (context_pairs sprint ctx ctxFields)"
      using map_of_SomeD [OF that] by simp
    then obtain f where "f \<in> set ctxFields" "ctx f \<noteq> VNil" "v = ctx f"
      by (auto simp: context_pairs_def)
    with assms have "is_string v"
      by (auto simp: list_all_iff)
    then show ?thesis by (rule is_string_not_isErrField)
  qed
  then have "accepted_fields ?m = ?m"
    by (rule accepted_fields_all)
  then show ?thesis
    using assms
    by (simp add: withContext_def context_loop_strings Logger_WithFields_def Entry_WithFields_def)
qed

lemma withContext_panics:
  "f \<in> set ctxFields \<Longrightarrow> ctx f \<noteq> VNil \<Longrightarrow> \<not> is_string (ctx f) \<Longrightarrow>
     withContext sprint ctxFields ctx = Inl TypeAssertion"
  by (simp add: withContext_def context_loop_panics)

lemma withFields_applied:
  "list_all (\<lambda>f. f \<noteq> None) (elems flds) \<Longrightarrow>
     withFields e flds
       = Inr (e\<lparr>Data := Data e ++ accepted_fields (map_of (rev (explicit_pairs (elems flds))))\<rparr>)"
  by (simp add: withFields_def fields_loop_applied Entry_WithFields_def)

lemma map_of_unique_value:
  assumes "(k, v) \<in> set xs" and "\<And>v'. (k, v') \<in> set xs \<Longrightarrow> v' = v"
  shows "map_of xs k = Some v"
proof -
  have "k \<in> fst ` set xs"
    using assms(1) by force
  then obtain v' where v': "map_of xs k = Some v'"
    by (metis domD dom_map_of_conv_image_fst)
  then have "(k, v') \<in> set xs"
    by (rule map_of_SomeD)
  with assms(2) v' show ?thesis by simp
qed

text \<open>
  C4, as the code has it. When the context holds, for every registered key, nil or a
  string, extraction returns an entry whose field set is the record of the writes of the
  loop: it has an entry exactly for the renderings of the registered keys with a non-nil
  lookup, every entry holds a string of the context (never a nil or another placeholder),
  and where the renderings of the registered keys are distinct each such key is held under
  its rendering with its value in the context.
\<close>

theorem withContext_fields:
  assumes "list_all (\<lambda>f. ctx f = VNil \<or> is_string (ctx f)) ctxFields"
  shows "\<exists>e. withContext sprint ctxFields ctx = Inr e
     \<and> Data e = map_of (rev (context_pairs sprint ctx ctxFields))
     \<and> dom (Data e) = sprint ` {f \<in> set ctxFields. ctx f \<noteq> VNil}
     \<and> (\<forall>k v. Data e k = Some v \<longrightarrow> v \<noteq> VNil \<and> is_string v)
     \<and> (inj_on sprint (set ctxFields) \<longrightarrow>
          (\<forall>f \<in> set ctxFields. ctx f \<noteq> VNil \<longrightarrow> Data e (sprint f) = Some (ctx f)))"
proof -
  let ?ps = "context_pairs sprint ctx ctxFields"
  let ?e = "\<lparr>Data = map_of (rev ?ps)\<rparr>"
  have set_ps: "set ?ps = (\<lambda>f. (sprint f, ctx f)) ` {f \<in> set ctxFields. ctx f \<noteq> VNil}"
    by (simp add: context_pairs_def)
  have run: "withContext sprint ctxFields ctx = Inr ?e"
    using assms by (rule withContext_strings)
  have doms: "dom (Data ?e) = sprint ` {f \<in> set ctxFields. ctx f \<noteq> VNil}"
    by (simp add: dom_map_of_conv_image_fst set_ps image_image)
  have vals: "\<forall>k v. Data ?e k = Some v \<longrightarrow> v \<noteq> VNil \<and> is_string v"
  proof (intro allI impI)
    fix k v
    assume "Data ?e k = Some v"
    then have "(k, v) \<in> set ?ps"
      using map_of_SomeD [of "rev ?ps" k v] by simp
    then obtain f where f: "f \<in> set ctxFields" "ctx f \<noteq> VNil" "v = ctx f"
      unfolding set_ps by auto
    with assms show "v \<noteq> VNil \<and> is_string v"
      by (auto simp: list_all_iff)
  qed
  have inj: "inj_on sprint (set ctxFields) \<longrightarrow>
      (\<forall>f \<in> set ctxFields. ctx f \<noteq> VNil \<longrightarrow> Data ?e (sprint f) = Some (ctx f))"
  proof (intro impI ballI)
    fix f
    assume i: "inj_on sprint (set ctxFields)" and f: "f \<in> set ctxFields" "ctx f \<noteq> VNil"
    have "map_of (rev ?ps) (sprint f) = Some (ctx f)"
    proof (rule map_of_unique_value)
      show "(sprint f, ctx f) \<in> set (rev ?ps)"
        using f by (simp add: set_ps)
    next
      fix v'
      assume "(sprint f, v') \<in> set (rev ?ps)"
      then obtain g where g: "g \<in> set ctxFields" "sprint g = sprint f" "v' = ctx g"
        by (auto simp: set_ps)
      with i f have "g = f" by (auto dest: inj_onD)
      with g show "v' = ctx f" by simp
    qed
    then show "Data ?e (sprint f) = Some (ctx f)" by simp
  qed
  show ?thesis
    using run doms vals inj by (intro exI [of _ ?e]) simp
qed

lemma test_ctx_pairs:
  "context_pairs show_key test_ctx [VString ''requestId'', VString ''userId'', VString ''traceId'']
     = [(''requestId'', VString ''request-id''), (''userId'', VString ''user-id'')]"
  by (simp add: context_pairs_def test_ctx_def WithValue_def Background_def show_key_def)

theorem withContext_fields_witness:
  "\<exists>e. withContext show_key [VString ''requestId'', VString ''userId'', VString ''traceId''] test_ctx
          = Inr e
     \<and> Data e ''requestId'' = Some (VString ''request-id'')
     \<and> Data e ''userId'' = Some (VString ''user-id'')
     \<and> Data e ''traceId'' = None"
proof -
  let ?keys = "[VString ''requestId'', VString ''userId'', VString ''traceId'']"
  have ok: "list_all (\<lambda>f. test_ctx f = VNil \<or> is_string (test_ctx f)) ?keys"
    by (simp add: test_ctx_def WithValue_def Background_def)
  from withContext_fields [OF ok, of show_key]
  obtain e where e: "withContext show_key ?keys test_ctx = Inr e"
      "Data e = map_of (rev (context_pairs show_key test_ctx ?keys))"
    by blast
  from e(2) have "Data e ''requestId'' = Some (VString ''request-id'')"
      "Data e ''userId'' = Some (VString ''user-id'')" "Data e ''traceId'' = None"
    by (simp_all add: test_ctx_pairs)
  with e(1) show ?thesis by blast
qed

text \<open>
  The claim as the specification words it fails on a context that holds an integer for a
  registered key: extraction panics.
\<close>

theorem withContext_panics_on_int:
  "withContext show_key [VString ''requestId'']
     (WithValue Background (VString ''requestId'') (VInt 7)) = Inl TypeAssertion"
  by (simp add: withContext_def WithValue_def Background_def)

text \<open>
  C10. When the context holds, for some registered key, a value that is neither nil nor a
  string, the assertion \<^verbatim>\<open>val.(string)\<close> panics: \<^verbatim>\<open>withContext\<close> returns no entry, the
  key is neither skipped nor coerced, and every log call of the package panics with it.
\<close>

theorem withContext_type_assertion_panics:
  assumes "f \<in> set ctxFields" and "ctx f \<noteq> VNil" and "\<not> is_string (ctx f)"
  shows "withContext sprint ctxFields ctx = Inl TypeAssertion
     \<and> Info sprint ctxFields ctx i flds = Inl TypeAssertion
     \<and> Infof marshal sprint ctxFields ctx format a = Inl TypeAssertion
     \<and> Warn sprint ctxFields ctx i flds = Inl TypeAssertion
     \<and> Warnf marshal sprint ctxFields ctx format a = Inl TypeAssertion
     \<and> Error sprint ctxFields ctx i flds = Inl TypeAssertion
     \<and> Errorf marshal sprint ctxFields ctx format a = Inl TypeAssertion
     \<and> Debug sprint ctxFields ctx i flds = Inl TypeAssertion
     \<and> Debugf marshal sprint ctxFields ctx format a = Inl TypeAssertion
     \<and> Fatal sprint ctxFields ctx i = Inl TypeAssertion
     \<and> Fatalf sprint ctxFields ctx format a = Inl TypeAssertion"
proof -
  have "withContext sprint ctxFields ctx = Inl TypeAssertion"
    using assms by (rule withContext_panics)
  then show ?thesis
    by (simp add: Info_def Infof_def Warn_def Warnf_def Error_def Errorf_def Debug_def
        Debugf_def Fatal_def Fatalf_def and_then_def)
qed

theorem withContext_type_assertion_panics_witness:
  "withContext show_key [VString ''requestId'', VString ''userId'']
       (WithValue test_ctx (VString ''userId'') (VUint64 42)) = Inl TypeAssertion
   \<and> Infof (json_Marshal (\<lambda>v. Inl UnsupportedValue)) show_key
       [VString ''requestId'', VString ''userId'']
       (WithValue test_ctx (VString ''userId'') (VUint64 42))
       ''Informational Message %d'' (Some [VInt 2]) = Inl TypeAssertion"
proof -
  let ?ctx = "WithValue test_ctx (VString ''userId'') (VUint64 42)"
  have "VString ''userId'' \<in> set [VString ''requestId'', VString ''userId'']"
    and "?ctx (VString ''userId'') \<noteq> VNil" and "\<not> is_string (?ctx (VString ''userId''))"
    by (simp_all add: WithValue_def)
  then show ?thesis
    using withContext_type_assertion_panics
      [where f = "VString ''userId''" and ctx = ?ctx
         and ctxFields = "[VString ''requestId'', VString ''userId'']"]
    by blast
qed

section \<open>Explicit fields\<close>

lemma explicit_pairs_append:
  "explicit_pairs (xs @ ys) = explicit_pairs xs @ explicit_pairs ys"
  by (induction xs rule: explicit_pairs.induct) simp_all

lemma explicit_pairs_keys:
  "fst ` set (explicit_pairs flds) = {fld_key r |r. Some r \<in> set flds}"
  by (induction flds rule: explicit_pairs.induct) auto

text \<open>The last explicit field with a given key is the one whose write stays.\<close>

lemma map_of_rev_explicit_pairs_last:
  assumes "\<And>r'. Some r' \<in> set post \<Longrightarrow> fld_key r' \<noteq> fld_key r"
  shows "map_of (rev (explicit_pairs (pre @ Some r # post))) (fld_key r) = Some (fld_value r)"
proof -
  have "fld_key r \<notin> fst ` set (explicit_pairs post)"
  proof
    assume "fld_key r \<in> fst ` set (explicit_pairs post)"
    then obtain r' where "Some r' \<in> set post" "fld_key r' = fld_key r"
      by (auto simp: explicit_pairs_keys)
    with assms show False by blast
  qed
  then have "map_of (rev (explicit_pairs post)) (fld_key r) = None"
    by (simp add: map_of_eq_None_iff)
  then show ?thesis
    by (simp add: explicit_pairs_append map_add_def)
qed

text \<open>
  C5, as the code and its backend have it. In a log call with explicit fields
  (\<^verbatim>\<open>Info\<close>, \<^verbatim>\<open>Warn\<close>, \<^verbatim>\<open>Error\<close>, \<^verbatim>\<open>Debug\<close>) whose context extraction returns the
  entry \<open>e\<close> and whose fields are not nil, the entry handed to the backend has the fields
  of \<open>e\<close> overlaid by the explicit fields the backend accepts, written in the order given.
  So the last explicit field with a given key decides that key: its value is the final
  one, whatever the context gave the key, unless the value is a function or a pointer to a
  function, which the backend leaves out: then the key keeps what the context gave it. A
  key no explicit field sets keeps what the context gave it.
\<close>

theorem explicit_fields_override_context:
  assumes "withContext sprint ctxFields ctx = Inr e"
    and "list_all (\<lambda>f. f \<noteq> None) (elems flds)"
  shows "\<exists>e'. Data e' = Data e ++ accepted_fields (map_of (rev (explicit_pairs (elems flds))))
     \<and> Info sprint ctxFields ctx i flds = Inr (Entry_Log InfoLevel e' i)
     \<and> Warn sprint ctxFields ctx i flds = Inr (Entry_Log WarnLevel e' i)
     \<and> Error sprint ctxFields ctx i flds = Inr (Entry_Log ErrorLevel e' i)
     \<and> Debug sprint ctxFields ctx i flds = Inr (Entry_Log DebugLevel e' i)
     \<and> (\<forall>pre r post. elems flds = pre @ Some r # post
            \<and> (\<forall>r'. Some r' \<in> set post \<longrightarrow> fld_key r' \<noteq> fld_key r) \<longrightarrow>
          Data e' (fld_key r)
            = (if isErrField (fld_value r) then Data e (fld_key r) else Some (fld_value r)))
     \<and> (\<forall>k. k \<notin> fst ` set (explicit_pairs (elems flds)) \<longrightarrow> Data e' k = Data e k)"
proof -
  let ?m = "map_of (rev (explicit_pairs (elems flds)))"
  let ?e' = "e\<lparr>Data := Data e ++ accepted_fields ?m\<rparr>"
  have wf: "withFields e flds = Inr ?e'"
    using assms(2) by (rule withFields_applied)
  have calls: "Info sprint ctxFields ctx i flds = Inr (Entry_Log InfoLevel ?e' i)"
    "Warn sprint ctxFields ctx i flds = Inr (Entry_Log WarnLevel ?e' i)"
    "Error sprint ctxFields ctx i flds = Inr (Entry_Log ErrorLevel ?e' i)"
    "Debug sprint ctxFields ctx i flds = Inr (Entry_Log DebugLevel ?e' i)"
    using assms(1) wf by (simp_all add: Info_def Warn_def Error_def Debug_def and_then_def)
  have last_wins: "\<forall>pre r post. elems flds = pre @ Some r # post
        \<and> (\<forall>r'. Some r' \<in> set post \<longrightarrow> fld_key r' \<noteq> fld_key r) \<longrightarrow>
      Data ?e' (fld_key r)
        = (if isErrField (fld_value r) then Data e (fld_key r) else Some (fld_value r))"
  proof (intro allI impI)
    fix pre r post
    assume h: "elems flds = pre @ Some r # post
        \<and> (\<forall>r'. Some r' \<in> set post \<longrightarrow> fld_key r' \<noteq> fld_key r)"
    then have "map_of (rev (explicit_pairs (pre @ Some r # post))) (fld_key r)
        = Some (fld_value r)"
      by (intro map_of_rev_explicit_pairs_last) simp
    with h have "?m (fld_key r) = Some (fld_value r)"
      by simp
    then show "Data ?e' (fld_key r)
        = (if isErrField (fld_value r) then Data e (fld_key r) else Some (fld_value r))"
      by (simp add: map_add_def accepted_fields_def)
  qed
  have others: "\<forall>k. k \<notin> fst ` set (explicit_pairs (elems flds)) \<longrightarrow> Data ?e' k = Data e k"
  proof (intro allI impI)
    fix k
    assume "k \<notin> fst ` set (explicit_pairs (elems flds))"
    then have "?m k = None"
      by (simp add: map_of_eq_None_iff)
    then show "Data ?e' k = Data e k"
      by (simp add: map_add_def accepted_fields_def)
  qed
  show ?thesis
    using calls last_wins others by (intro exI [of _ ?e']) simp
qed

theorem explicit_fields_override_context_witness:
  "\<exists>e e'. withContext show_key [VString ''requestId'', VString ''userId''] test_ctx = Inr e
     \<and> Data e ''requestId'' = Some (VString ''request-id'')
     \<and> Info show_key [VString ''requestId'', VString ''userId''] test_ctx
          (VString ''Informational Message 2'')
          (Some [Field ''requestId'' (VInt 9), Field ''field1'' (VString ''value1'')])
        = Inr (Entry_Log InfoLevel e' (VString ''Informational Message 2''))
     \<and> Data e' ''requestId'' = Some (VInt 9)
     \<and> Data e' ''field1'' = Some (VString ''value1'')
     \<and> Data e' ''userId'' = Some (VString ''user-id'')"
proof -
  let ?keys = "[VString ''requestId'', VString ''userId'']"
  let ?flds = "Some [Field ''requestId'' (VInt 9), Field ''field1'' (VString ''value1'')]"
  let ?e = "\<lparr>Data = map_of (rev (context_pairs show_key test_ctx ?keys))\<rparr>"
  have pairs: "context_pairs show_key test_ctx ?keys
      = [(''requestId'', VString ''request-id''), (''userId'', VString ''user-id'')]"
    by (simp add: context_pairs_def test_ctx_def WithValue_def Background_def show_key_def)
  have e: "withContext show_key ?keys test_ctx = Inr ?e"
    by (rule withContext_strings) (simp add: test_ctx_def WithValue_def Background_def)
  have nonnil: "list_all (\<lambda>f. f \<noteq> None) (elems ?flds)"
    by (simp add: Field_def)
  from explicit_fields_override_context [OF e nonnil, of "VString ''Informational Message 2''"]
  obtain e' where e': "Info show_key ?keys test_ctx (VString ''Informational Message 2'') ?flds
       = Inr (Entry_Log InfoLevel e' (VString ''Informational Message 2''))"
    and last: "\<And>pre r post. elems ?flds = pre @ Some r # post
        \<and> (\<forall>r'. Some r' \<in> set post \<longrightarrow> fld_key r' \<noteq> fld_key r) \<Longrightarrow>
      Data e' (fld_key r)
        = (if isErrField (fld_value r) then Data ?e (fld_key r) else Some (fld_value r))"
    and others: "\<And>k. k \<notin> fst ` set (explicit_pairs (elems ?flds)) \<Longrightarrow> Data e' k = Data ?e k"
    by blast
  have "Data ?e ''requestId'' = Some (VString ''request-id'')"
    by (simp add: pairs)
  moreover have "Data e' ''requestId'' = Some (VInt 9)"
    using last [of "[]" "\<lparr>fld_key = ''requestId'', fld_value = VInt 9\<rparr>"
        "[Field ''field1'' (VString ''value1'')]"]
    by (simp add: Field_def)
  moreover have "Data e' ''field1'' = Some (VString ''value1'')"
    using last [of "[Field ''requestId'' (VInt 9)]"
        "\<lparr>fld_key = ''field1'', fld_value = VString ''value1''\<rparr>" "[]"]
    by (simp add: Field_def)
  moreover have "Data e' ''userId'' = Some (VString ''user-id'')"
    using others [of "''userId''"] by (simp add: Field_def pairs)
  ultimately show ?thesis
    using e e' by blast
qed

text \<open>
  The claim as the specification words it fails for an explicit field that holds a
  function: the backend leaves the field out, and the key keeps the value of the context.
\<close>

theorem explicit_function_field_loses:
  "\<exists>em. Info show_key [VString ''requestId'', VString ''userId''] test_ctx
          (VString ''Informational Message 2'') (Some [Field ''requestId'' (VFunc 0)])
        = Inr em
     \<and> Data (em_entry em) ''requestId'' = Some (VString ''request-id'')
     \<and> Data (em_entry em) ''requestId'' \<noteq> Some (VFunc 0)"
proof -
  let ?keys = "[VString ''requestId'', VString ''userId'']"
  let ?flds = "Some [Field ''requestId'' (VFunc 0)]"
  let ?e = "\<lparr>Data = map_of (rev (context_pairs show_key test_ctx ?keys))\<rparr>"
  let ?e' = "?e\<lparr>Data := Data ?e ++ accepted_fields (map_of (rev (explicit_pairs (elems ?flds))))\<rparr>"
  have pairs: "context_pairs show_key test_ctx ?keys
      = [(''requestId'', VString ''request-id''), (''userId'', VString ''user-id'')]"
    by (simp add: context_pairs_def test_ctx_def WithValue_def Background_def show_key_def)
  have e: "withContext show_key ?keys test_ctx = Inr ?e"
    by (rule withContext_strings) (simp add: test_ctx_def WithValue_def Background_def)
  have wf: "withFields ?e ?flds = Inr ?e'"
    by (rule withFields_applied) (simp add: Field_def)
  have call: "Info show_key ?keys test_ctx (VString ''Informational Message 2'') ?flds
      = Inr (Entry_Log InfoLevel ?e' (VString ''Informational Message 2''))"
    using e wf by (simp add: Info_def and_then_def)
  have "Data ?e' ''requestId'' = Some (VString ''request-id'')"
    by (simp add: pairs Field_def map_add_def accepted_fields_def)
  with call show ?thesis
    by (simp add: Entry_Log_def)
qed



section \<open>Formatter names\<close>

text \<open>
  C9. \<^verbatim>\<open>FormatterFromName\<close> answers by the lower-cased name: the simple formatter for
  \<^verbatim>\<open>simple\<close>, the text formatter for \<^verbatim>\<open>text\<close>, the JSON formatter for every other
  name. For names of ASCII bytes the lower-casing is that of the letters \<^verbatim>\<open>A\<close> to
  \<^verbatim>\<open>Z\<close>, so two names that differ only in the case of their letters get the same
  formatter; \<^verbatim>\<open>bogus\<close> gets the JSON formatter and \<^verbatim>\<open>TEXT\<close> the text formatter.
\<close>

theorem FormatterFromName_matches:
  "FormatterFromName ul name =
     (if ToLower ul name = ''simple'' then SimpleFormatter
      else if ToLower ul name = ''text'' then TextFormatter
      else JSONFormatter)
   \<and> (list_all (\<lambda>c. byte_of c < 0x80) name \<longrightarrow>
        FormatterFromName ul name =
          (if map ascii_lower name = ''simple'' then SimpleFormatter
           else if map ascii_lower name = ''text'' then TextFormatter
           else JSONFormatter))
   \<and> (list_all (\<lambda>c. byte_of c < 0x80) name \<and> list_all (\<lambda>c. byte_of c < 0x80) name'
        \<and> map ascii_lower name = map ascii_lower name' \<longrightarrow>
        FormatterFromName ul name = FormatterFromName ul name')
   \<and> FormatterFromName ul ''bogus'' = JSONFormatter
   \<and> FormatterFromName ul ''TEXT'' = TextFormatter
   \<and> FormatterFromName ul ''Simple'' = SimpleFormatter
   \<and> FormatterFromName ul ''JsOn'' = JSONFormatter"
proof -
  have general: "\<And>n. FormatterFromName ul n =
     (if ToLower ul n = ''simple'' then SimpleFormatter
      else if ToLower ul n = ''text'' then TextFormatter
      else JSONFormatter)"
    by (simp add: FormatterFromName_def formatMap_def Let_def)
  have ascii: "\<And>n. list_all (\<lambda>c. byte_of c < 0x80) n \<Longrightarrow> ToLower ul n = map ascii_lower n"
    by (simp add: ToLower_def)
  have ex: "ToLower ul ''bogus'' = ''bogus''" "ToLower ul ''TEXT'' = ''text''"
    "ToLower ul ''Simple'' = ''simple''" "ToLower ul ''JsOn'' = ''json''"
    by (simp_all add: ToLower_def ascii_lower_def byte_of_def char_of_def bit_iff_odd)
  show ?thesis
    using general [of name] general [of name'] ascii [of name] ascii [of name']
    by (simp add: general ex)
qed

theorem FormatterFromName_matches_witness:
  "FormatterFromName (\<lambda>s. s) ''tExT'' = TextFormatter
   \<and> FormatterFromName (\<lambda>s. s) ''tExT'' = FormatterFromName (\<lambda>s. s) ''TEXT''
   \<and> FormatterFromName (\<lambda>s. s) ''yaml'' = JSONFormatter"
proof -
  have a: "list_all (\<lambda>c. byte_of c < 0x80) ''tExT''" "list_all (\<lambda>c. byte_of c < 0x80) ''TEXT''"
    "list_all (\<lambda>c. byte_of c < 0x80) ''yaml''"
    by (simp_all add: byte_of_def)
  have l: "map ascii_lower ''tExT'' = ''text''" "map ascii_lower ''TEXT'' = ''text''"
    "map ascii_lower ''yaml'' = ''yaml''"
    by (simp_all add: ascii_lower_def byte_of_def char_of_def bit_iff_odd)
  have same: "map ascii_lower ''tExT'' = map ascii_lower ''TEXT''"
    by (simp only: l)
  note t = FormatterFromName_matches [of "\<lambda>s. s" "''tExT''" "''TEXT''"]
  note y = FormatterFromName_matches [of "\<lambda>s. s" "''yaml''" "''yaml''"]
  have "FormatterFromName (\<lambda>s. s) ''tExT'' =
      (if map ascii_lower ''tExT'' = ''simple'' then SimpleFormatter
       else if map ascii_lower ''tExT'' = ''text'' then TextFormatter
       else JSONFormatter)"
    using t a(1) by blast
  then have 1: "FormatterFromName (\<lambda>s. s) ''tExT'' = TextFormatter"
    by (simp only: l) simp
  have 2: "FormatterFromName (\<lambda>s. s) ''tExT'' = FormatterFromName (\<lambda>s. s) ''TEXT''"
    using t a(1,2) same by blast
  have "FormatterFromName (\<lambda>s. s) ''yaml'' =
      (if map ascii_lower ''yaml'' = ''simple'' then SimpleFormatter
       else if map ascii_lower ''yaml'' = ''text'' then TextFormatter
       else JSONFormatter)"
    using y a(3) by blast
  then have 3: "FormatterFromName (\<lambda>s. s) ''yaml'' = JSONFormatter"
    by (simp only: l) simp
  from 1 2 3 show ?thesis by blast
qed

section \<open>Formatted log calls\<close>

text \<open>
  \<^verbatim>\<open>Infof\<close>, \<^verbatim>\<open>Warnf\<close>, \<^verbatim>\<open>Errorf\<close> and \<^verbatim>\<open>Debugf\<close> hand the backend the normalised
  arguments; \<^verbatim>\<open>Fatalf\<close> hands it the arguments as they came.
\<close>

lemma formatted_calls_normalize:
  assumes "withContext sprint ctxFields ctx = Inr e"
  shows "Infof marshal sprint ctxFields ctx format a
           = Inr (Entry_Logf InfoLevel e format (normalizeArgs marshal a))"
    and "Warnf marshal sprint ctxFields ctx format a
           = Inr (Entry_Logf WarnLevel e format (normalizeArgs marshal a))"
    and "Errorf marshal sprint ctxFields ctx format a
           = Inr (Entry_Logf ErrorLevel e format (normalizeArgs marshal a))"
    and "Debugf marshal sprint ctxFields ctx format a
           = Inr (Entry_Logf DebugLevel e format (normalizeArgs marshal a))"
    and "Fatalf sprint ctxFields ctx format a = Inr (Entry_Logf FatalLevel e format a)"
  using assms by (simp_all add: Infof_def Warnf_def Errorf_def Debugf_def Fatalf_def and_then_def)

text \<open>
  C7. The claim holds for four of the five formatted calls. \<^verbatim>\<open>Fatalf\<close> called with a map
  hands the backend the map itself, where \<^verbatim>\<open>Errorf\<close> on the same arguments hands it the
  JSON text of the map.
\<close>

theorem Fatalf_skips_normalizer:
  \<open>Fatalf show_key [] Background ''%v''
       (Some [VMap [(''a'', VString ''apple''), (''b'', VString ''banana'')]])
     = Inr \<lparr>em_level = FatalLevel, em_entry = \<lparr>Data = Map.empty\<rparr>,
            em_payload = Formatted ''%v''
              (Some [VMap [(''a'', VString ''apple''), (''b'', VString ''banana'')]])\<rparr>
   \<and> Errorf (json_Marshal (\<lambda>v. Inl UnsupportedValue)) show_key [] Background ''%v''
       (Some [VMap [(''a'', VString ''apple''), (''b'', VString ''banana'')]])
     = Inr \<lparr>em_level = ErrorLevel, em_entry = \<lparr>Data = Map.empty\<rparr>,
            em_payload = Formatted ''%v'' (Some [VString ''{"a":"apple","b":"banana"}''])\<rparr>\<close>
proof -
  have e: "withContext show_key [] Background = Inr \<lparr>Data = Map.empty\<rparr>"
    by (simp add: withContext_def Logger_WithFields_def Entry_WithFields_def
        accepted_fields_empty)
  have n: \<open>normalizeArgs (json_Marshal (\<lambda>v. Inl UnsupportedValue))
       (Some [VMap [(''a'', VString ''apple''), (''b'', VString ''banana'')]])
     = Some [VString ''{"a":"apple","b":"banana"}'']\<close>
    by (rule normalizeArgs_encoded) (simp, rule example_map)
  show ?thesis
    by (simp only: formatted_calls_normalize [OF e] n Entry_Logf_def)
qed

end
